theory Spec2Isabelle
  imports Main "HOL-Library.Word"
begin

section \<open>Messages of the file transfer service\<close>

text \<open>
  The protobuf messages of \<^verbatim>\<open>FileTransferService\<close>. Go's \<^verbatim>\<open>int64\<close> is a 64-bit
  word (read as two's complement by \<open>sint\<close>), \<^verbatim>\<open>bytes\<close> is a list of 8-bit words.
  The fields of the download messages carry a suffix, since a record field is a
  constant of the theory: \<open>_rq\<close> for the request, \<open>_rs\<close> for the response.
\<close>

type_synonym byte = "8 word"
type_synonym int64 = "64 word"

record FileUploadRequest =
  Filename :: string
  Content :: "byte list"
  Size :: int64

record FileUploadResponse =
  Message :: string

record FileDownloadRequest =
  Filename_rq :: string

record FileDownloadResponse =
  Message_rs :: string
  Filename_rs :: string
  Content_rs :: "byte list"
  Size_rs :: int64

section \<open>Errors\<close>

text \<open>
  Every \<^verbatim>\<open>fmt.Errorf\<close> of server.go is a constructor; the wrapped error is its argument.
  \<open>SizeMismatch expected got\<close> is "file size mismatch: expected %d bytes, got %d bytes".
  \<open>TransportError\<close> is the error of \<^verbatim>\<open>stream.SendAndClose\<close>, which upload returns as it is.
  \<open>tls_error\<close> holds the two error kinds of the certificate provisioner (spec, section 7).
\<close>

datatype tls_error = CertificateLoadError | CertificateGenerationError

datatype error =
    RecvFailed string
  | OpenFailed string
  | WriteFailed string
  | SizeMismatch int64 int64
  | TransportError string
  | StatFailed string
  | ReadFailed string
  | SendFailed string
  | ListenFailed string
  | TLSConfigFailed tls_error

section \<open>The operating system: files, open handles, the log\<close>

record handle =
  path :: string
  pos :: nat

datatype log_event =
    AcceptUpload string int64
  | UploadCompleted int64
  | AcceptDownload string
  | DownloadCompleted int64
  | ErrorLogged error
  | NoTLSWarning
  | GeneratingSelfSigned
  | LoadingCertificate string string

text \<open>
  The state the handlers act on. \<open>files\<close> maps a path to the content of the file there;
  \<open>handles\<close> is the table of open file handles, by descriptor; \<open>opened\<close> is the trace of
  the paths given to an open call, in order; \<open>logged\<close> is what slog has written.
  The remaining fields say which operations the system refuses: the paths that cannot
  be opened, the bytes the device still accepts (\<open>None\<close>: no limit), and a pending error
  of stat and of read.
\<close>

record world =
  files :: "string \<rightharpoonup> byte list"
  handles :: "nat \<rightharpoonup> handle"
  next_fd :: nat
  opened :: "string list"
  logged :: "log_event list"
  denied :: "string list"
  quota :: "nat option"
  stat_fault :: "string option"
  read_fault :: "string option"

definition slog :: "log_event \<Rightarrow> world \<Rightarrow> world" where
  "slog e w = w\<lparr>logged := logged w @ [e]\<rparr>"

definition content_at :: "world \<Rightarrow> string \<Rightarrow> byte list" where
  "content_at w p = (case files w p of None \<Rightarrow> [] | Some c \<Rightarrow> c)"

text \<open>
  \<^verbatim>\<open>os.OpenFile(name, os.O_WRONLY|os.O_CREATE, 0644)\<close>: the file is created empty when
  it is absent and left as it is when it exists (the flags hold no \<^verbatim>\<open>O_TRUNC\<close> and no
  \<^verbatim>\<open>O_APPEND\<close>); the new handle stands at offset 0.
\<close>

definition OpenFile :: "string \<Rightarrow> world \<Rightarrow> (string + nat) \<times> world" where
  "OpenFile name w =
     (let w1 = w\<lparr>opened := opened w @ [name]\<rparr> in
      if name = [] \<or> name \<in> set (denied w) then (Inl ''open failed'', w1)
      else
        (let fd = next_fd w1;
             fs = (case files w1 name of None \<Rightarrow> (files w1)(name \<mapsto> []) | Some c \<Rightarrow> files w1)
         in (Inr fd, w1\<lparr>files := fs,
                         handles := (handles w1)(fd \<mapsto> \<lparr>path = name, pos = 0\<rparr>),
                         next_fd := Suc fd\<rparr>)))"

text \<open>\<^verbatim>\<open>os.Open(name)\<close>: read only, the file must exist.\<close>

definition Open :: "string \<Rightarrow> world \<Rightarrow> (string + nat) \<times> world" where
  "Open name w =
     (let w1 = w\<lparr>opened := opened w @ [name]\<rparr> in
      if name \<in> set (denied w) \<or> files w name = None then (Inl ''open failed'', w1)
      else
        (let fd = next_fd w1
         in (Inr fd, w1\<lparr>handles := (handles w1)(fd \<mapsto> \<lparr>path = name, pos = 0\<rparr>),
                         next_fd := Suc fd\<rparr>)))"

text \<open>
  \<^verbatim>\<open>f.Write(b)\<close> writes at the handle's offset, over what the file holds there, and
  moves the offset. It returns the number of bytes written and an error exactly when
  that number is less than \<open>length b\<close>.
\<close>

definition Write :: "nat \<Rightarrow> byte list \<Rightarrow> world \<Rightarrow> (nat \<times> string option) \<times> world" where
  "Write fd b w =
     (case handles w fd of
        None \<Rightarrow> ((0, Some ''file already closed''), w)
      | Some h \<Rightarrow>
          (let k = (case quota w of None \<Rightarrow> length b | Some q \<Rightarrow> min q (length b));
               old = content_at w (path h);
               new = take (pos h) old @ replicate (pos h - length old) 0
                       @ take k b @ drop (pos h + k) old;
               w1 = w\<lparr>files := (files w)(path h \<mapsto> new),
                       handles := (handles w)(fd \<mapsto> h\<lparr>pos := pos h + k\<rparr>),
                       quota := map_option (\<lambda>q. q - k) (quota w)\<rparr>
           in ((k, if k < length b then Some ''no space left on device'' else None), w1)))"

datatype read_result = ReadOk "byte list" | ReadEOF | ReadErr string

text \<open>
  \<^verbatim>\<open>f.Read(buf)\<close> with \<open>n = len(buf)\<close>: up to \<open>n\<close> bytes from the handle's offset;
  \<^verbatim>\<open>io.EOF\<close> when nothing is left; \<open>0, nil\<close> when the buffer is empty.
\<close>

definition Read :: "nat \<Rightarrow> nat \<Rightarrow> world \<Rightarrow> read_result \<times> world" where
  "Read fd n w =
     (case handles w fd of
        None \<Rightarrow> (ReadErr ''file already closed'', w)
      | Some h \<Rightarrow>
          (case read_fault w of
             Some e \<Rightarrow> (ReadErr e, w)
           | None \<Rightarrow>
               (let b = take n (drop (pos h) (content_at w (path h))) in
                if n = 0 then (ReadOk [], w)
                else if b = [] then (ReadEOF, w)
                else (ReadOk b, w\<lparr>handles := (handles w)(fd \<mapsto> h\<lparr>pos := pos h + length b\<rparr>)\<rparr>))))"

text \<open>\<^verbatim>\<open>f.Stat()\<close> followed by \<^verbatim>\<open>st.Size()\<close>.\<close>

definition Stat :: "nat \<Rightarrow> world \<Rightarrow> string + int64" where
  "Stat fd w =
     (case handles w fd of
        None \<Rightarrow> Inl ''file already closed''
      | Some h \<Rightarrow>
          (case stat_fault w of
             Some e \<Rightarrow> Inl e
           | None \<Rightarrow> Inr (of_nat (length (content_at w (path h))))))"

definition Close :: "nat \<Rightarrow> world \<Rightarrow> world" where
  "Close fd w = w\<lparr>handles := (handles w)(fd := None)\<rparr>"

section \<open>The upload stream\<close>

text \<open>
  What the client-streaming transport delivers: the pending events in order, each a
  message or a transport error, and end-of-stream once none is left.
  \<open>close_fault\<close> is the error \<^verbatim>\<open>SendAndClose\<close> will return, if any; \<open>response\<close> is the
  response the stream was closed with.
\<close>

datatype recv_event = Msg FileUploadRequest | Broken string

datatype recv_result = Received FileUploadRequest | EOF | RecvError string

record ustream =
  incoming :: "recv_event list"
  close_fault :: "string option"
  response :: "FileUploadResponse option"

definition Recv :: "ustream \<Rightarrow> recv_result \<times> ustream" where
  "Recv s =
     (case incoming s of
        [] \<Rightarrow> (EOF, s)
      | Msg req # rest \<Rightarrow> (Received req, s\<lparr>incoming := rest\<rparr>)
      | Broken e # rest \<Rightarrow> (RecvError e, s\<lparr>incoming := rest\<rparr>))"

definition SendAndClose :: "FileUploadResponse \<Rightarrow> ustream \<Rightarrow> error option \<times> ustream" where
  "SendAndClose m s =
     (case close_fault s of
        Some e \<Rightarrow> (Some (TransportError e), s)
      | None \<Rightarrow> (None, s\<lparr>response := Some m\<rparr>))"

section \<open>Upload\<close>

definition newUploadResponse :: "string \<Rightarrow> FileUploadResponse" where
  "newUploadResponse msg = \<lparr>Message = msg\<rparr>"

text \<open>
  The closure given to \<^verbatim>\<open>once.Do\<close>: it logs, opens the destination and takes the
  declared size. It returns the new values of \<open>err\<close>, \<open>f\<close> and \<open>expectedSize\<close>.
\<close>

definition first_chunk ::
  "FileUploadRequest \<Rightarrow> world \<Rightarrow> string option \<times> nat option \<times> int64 \<times> world" where
  "first_chunk req w =
     (case OpenFile (Filename req) (slog (AcceptUpload (Filename req) (Size req)) w) of
        (Inl e, w1) \<Rightarrow> (Some e, None, Size req, w1)
      | (Inr fd, w1) \<Rightarrow> (None, Some fd, Size req, w1))"

text \<open>
  The loop of \<^verbatim>\<open>server.upload\<close>. \<open>once\<close> says whether the \<^verbatim>\<open>sync.Once\<close> has run;
  \<open>f\<close>, \<open>totalBytes\<close> and \<open>expectedSize\<close> are the variables of the source.
\<close>

function upload_loop ::
  "ustream \<Rightarrow> bool \<Rightarrow> nat option \<Rightarrow> int64 \<Rightarrow> int64 \<Rightarrow> world
     \<Rightarrow> error option \<times> ustream \<times> world" where
  "upload_loop s once f totalBytes expectedSize w =
     (case Recv s of
        (EOF, s1) \<Rightarrow>
          (let w1 = slog (UploadCompleted totalBytes) w in
           if totalBytes \<noteq> expectedSize
           then (Some (SizeMismatch expectedSize totalBytes), s1, w1)
           else (case SendAndClose (newUploadResponse ''Upload received successfully'') s1 of
                   (r, s2) \<Rightarrow> (r, s2, w1)))
      | (RecvError e, s1) \<Rightarrow> (Some (RecvFailed e), s1, w)
      | (Received req, s1) \<Rightarrow>
          (case (if once then (None, f, expectedSize, w) else first_chunk req w) of
             (err, f1, expectedSize1, w1) \<Rightarrow>
               (case err of
                  Some e \<Rightarrow> (Some (OpenFailed e), s1, w1)
                | None \<Rightarrow>
                    (case f1 of
                       None \<Rightarrow> (Some (OpenFailed ''%!w(<nil>)''), s1, w1)
                     | Some fd \<Rightarrow>
                         (case Write fd (Content req) w1 of
                            ((n, Some e), w2) \<Rightarrow> (Some (WriteFailed e), s1, w2)
                          | ((n, None), w2) \<Rightarrow>
                              upload_loop s1 True f1 (totalBytes + of_nat n) expectedSize1 w2)))))"
  by pat_completeness auto
termination
  by (relation "measure (\<lambda>(s, once, f, totalBytes, expectedSize, w). length (incoming s))")
     (auto simp: Recv_def split: list.splits recv_event.splits)

definition upload :: "ustream \<Rightarrow> world \<Rightarrow> error option \<times> ustream \<times> world" where
  "upload s w = upload_loop s False None 0 0 w"

definition Upload :: "ustream \<Rightarrow> world \<Rightarrow> error option \<times> ustream \<times> world" where
  "Upload s w =
     (case upload s w of
        (Some e, s1, w1) \<Rightarrow> (Some e, s1, slog (ErrorLogged e) w1)
      | (None, s1, w1) \<Rightarrow> (None, s1, w1))"

section \<open>Download\<close>

definition StreamBufferSize :: nat where
  "StreamBufferSize = 1024 * 1024"

text \<open>
  The server-streaming transport: the messages sent so far, and the number of
  messages after which \<^verbatim>\<open>stream.Send\<close> fails (\<open>None\<close>: it never does).
\<close>

record dstream =
  sent :: "FileDownloadResponse list"
  broken_after :: "nat option"

definition Send :: "FileDownloadResponse \<Rightarrow> dstream \<Rightarrow> string option \<times> dstream" where
  "Send m s =
     (case broken_after s of
        None \<Rightarrow> (None, s\<lparr>sent := sent s @ [m]\<rparr>)
      | Some k \<Rightarrow>
          if k \<le> length (sent s) then (Some ''transport is closing'', s)
          else (None, s\<lparr>sent := sent s @ [m]\<rparr>))"

text \<open>
  The handler does not lock the file it reads: between two of its reads another process
  may truncate the file, append to it, or the device may fail. \<open>fs_step\<close> is the effect
  of one such event on the system; a download runs against a list of them, one before
  each read, and none once the list is used up.
\<close>

datatype fs_event =
    Idle
  | Truncate string nat
  | Append string "byte list"
  | Fault string

fun fs_step :: "fs_event \<Rightarrow> world \<Rightarrow> world" where
  "fs_step Idle w = w"
| "fs_step (Truncate p n) w =
     (case files w p of
        None \<Rightarrow> w
      | Some c \<Rightarrow> w\<lparr>files := (files w)(p \<mapsto> take n c @ replicate (n - length c) 0)\<rparr>)"
| "fs_step (Append p b) w =
     (case files w p of
        None \<Rightarrow> w
      | Some c \<Rightarrow> w\<lparr>files := (files w)(p \<mapsto> c @ b)\<rparr>)"
| "fs_step (Fault e) w = w\<lparr>read_fault := Some e\<rparr>"

definition next_event :: "fs_event list \<Rightarrow> fs_event" where
  "next_event env = (case env of [] \<Rightarrow> Idle | e # es \<Rightarrow> e)"

definition remaining :: "nat \<Rightarrow> world \<Rightarrow> nat" where
  "remaining fd w =
     (case handles w fd of
        None \<Rightarrow> 0
      | Some h \<Rightarrow> length (content_at w (path h)) - pos h)"

text \<open>
  The loop of \<^verbatim>\<open>server.download\<close>, after the file is open and its size taken.
  \<open>name\<close> is \<^verbatim>\<open>req.Filename\<close>; the buffer holds \<open>StreamBufferSize\<close> bytes.
\<close>

function download_loop ::
  "fs_event list \<Rightarrow> nat \<Rightarrow> string \<Rightarrow> int64 \<Rightarrow> int64 \<Rightarrow> dstream \<Rightarrow> world
     \<Rightarrow> error option \<times> dstream \<times> world" where
  "download_loop env fd name expectedBytes totalBytes s w =
     (case Read fd StreamBufferSize (fs_step (next_event env) w) of
        (ReadEOF, w1) \<Rightarrow>
          (let w2 = slog (DownloadCompleted totalBytes) w1 in
           if totalBytes \<noteq> expectedBytes
           then (Some (SizeMismatch expectedBytes totalBytes), s, w2)
           else (None, s, w2))
      | (ReadErr e, w1) \<Rightarrow> (Some (ReadFailed e), s, w1)
      | (ReadOk buf, w1) \<Rightarrow>
          (case Send \<lparr>Message_rs = [], Filename_rs = name, Content_rs = buf,
                      Size_rs = expectedBytes\<rparr> s of
             (Some e, s1) \<Rightarrow> (Some (SendFailed e), s1, w1)
           | (None, s1) \<Rightarrow>
               download_loop (tl env) fd name expectedBytes
                 (totalBytes + of_nat (length buf)) s1 w1))"
  by pat_completeness auto
termination
proof (relation "measures [\<lambda>(env, fd, name, expectedBytes, totalBytes, s, w). length env,
                            \<lambda>(env, fd, name, expectedBytes, totalBytes, s, w). remaining fd w]",
       goal_cases)
  case 1
  show ?case by simp
next
  case 2
  then show ?case
    by (auto simp: next_event_def Read_def remaining_def content_at_def StreamBufferSize_def
                   Let_def min_def
             split: option.splits if_splits list.splits)
qed

text \<open>\<^verbatim>\<open>server.download\<close>: the \<^verbatim>\<open>defer f.Close()\<close> runs on every return after the open.\<close>

definition download ::
  "fs_event list \<Rightarrow> FileDownloadRequest \<Rightarrow> dstream \<Rightarrow> world
     \<Rightarrow> error option \<times> dstream \<times> world" where
  "download env req s w =
     (case Open (Filename_rq req) (slog (AcceptDownload (Filename_rq req)) w) of
        (Inl e, w1) \<Rightarrow> (Some (OpenFailed e), s, w1)
      | (Inr fd, w1) \<Rightarrow>
          (case (case Stat fd w1 of
                   Inl e \<Rightarrow> (Some (StatFailed e), s, w1)
                 | Inr expectedBytes \<Rightarrow>
                     download_loop env fd (Filename_rq req) expectedBytes 0 s w1) of
             (r, s1, w2) \<Rightarrow> (r, s1, Close fd w2)))"

definition Download ::
  "fs_event list \<Rightarrow> FileDownloadRequest \<Rightarrow> dstream \<Rightarrow> world
     \<Rightarrow> error option \<times> dstream \<times> world" where
  "Download env req s w =
     (case download env req s w of
        (Some e, s1, w1) \<Rightarrow> (Some e, s1, slog (ErrorLogged e) w1)
      | (None, s1, w1) \<Rightarrow> (None, s1, w1))"

section \<open>The listener\<close>

text \<open>
  \<^verbatim>\<open>ServerOption\<close> is declared outside server.go; these are the fields cli.go sets and
  server.go reads.
\<close>

record ServerOption =
  Listen :: string
  Port :: int
  TLS :: bool
  CertFile :: string
  KeyFile :: string

datatype tls_config = Loaded "byte list" "byte list" | SelfSigned "byte list"

datatype listener = TCPListener string | TLSListener listener tls_config

text \<open>
  What listener construction depends on besides the files: the addresses already
  bound, the random source (\<open>None\<close>: it fails), and which pairs of file contents parse
  as a certificate and its key.
\<close>

record netenv =
  bound :: "string list"
  entropy :: "byte list option"
  parses :: "byte list \<Rightarrow> byte list \<Rightarrow> bool"

definition net_Listen :: "netenv \<Rightarrow> string \<Rightarrow> string + listener" where
  "net_Listen ne addr =
     (if addr \<in> set (bound ne) then Inl ''address already in use'' else Inr (TCPListener addr))"

definition read_file :: "world \<Rightarrow> string \<Rightarrow> byte list option" where
  "read_file w p = (if p \<in> set (denied w) then None else files w p)"

text \<open>
  Modelled from the spec: \<^verbatim>\<open>genTLS\<close> is called by \<^verbatim>\<open>newListener\<close> and defined outside
  server.go. Spec 4.1: if both paths are present, load and parse the key pair from disk;
  fail with a \<open>CertificateLoadError\<close> if either file is missing, unreadable, or not a valid
  key-pair encoding.
\<close>

definition genTLS :: "netenv \<Rightarrow> string \<Rightarrow> string \<Rightarrow> world \<Rightarrow> tls_error + tls_config" where
  "genTLS ne certFile keyFile w =
     (case read_file w certFile of
        None \<Rightarrow> Inl CertificateLoadError
      | Some c \<Rightarrow>
          (case read_file w keyFile of
             None \<Rightarrow> Inl CertificateLoadError
           | Some k \<Rightarrow> if parses ne c k then Inr (Loaded c k) else Inl CertificateLoadError))"

text \<open>
  Modelled from the spec: \<^verbatim>\<open>genSelfSignedTLS\<close> is called by \<^verbatim>\<open>newListener\<close> and defined
  outside server.go. Spec 4.1 and 9: generate a fresh key pair and a self-signed
  certificate entirely in memory, a function of the random source alone; spec 7: it may
  fail with a \<open>CertificateGenerationError\<close>.
\<close>

definition genSelfSignedTLS :: "netenv \<Rightarrow> tls_error + tls_config" where
  "genSelfSignedTLS ne =
     (case entropy ne of
        None \<Rightarrow> Inl CertificateGenerationError
      | Some seed \<Rightarrow> Inr (SelfSigned seed))"

definition newListener ::
  "netenv \<Rightarrow> string \<Rightarrow> ServerOption \<Rightarrow> world \<Rightarrow> (error + listener) \<times> world" where
  "newListener ne addr opt w =
     (case net_Listen ne addr of
        Inl e \<Rightarrow> (Inl (ListenFailed e), w)
      | Inr lis \<Rightarrow>
          if \<not> TLS opt then (Inr lis, slog NoTLSWarning w)
          else if CertFile opt = [] \<or> KeyFile opt = [] then
            (let w1 = slog GeneratingSelfSigned w in
             case genSelfSignedTLS ne of
               Inl e \<Rightarrow> (Inl (TLSConfigFailed e), w1)
             | Inr c \<Rightarrow> (Inr (TLSListener lis c), w1))
          else
            (let w1 = slog (LoadingCertificate (CertFile opt) (KeyFile opt)) w in
             case genTLS ne (CertFile opt) (KeyFile opt) w1 of
               Inl e \<Rightarrow> (Inl (TLSConfigFailed e), w1)
             | Inr c \<Rightarrow> (Inr (TLSListener lis c), w1)))"

section \<open>Notions the statements use\<close>

text \<open>
  \<open>payload rs\<close> is the bytes a list of upload messages carries, in order;
  \<open>declared rs\<close> is the size field of the first of them (0, the initial value of
  \<^verbatim>\<open>expectedSize\<close>, when there is none). \<open>openable w rs\<close> says that the system lets the
  file named by the first message be opened for writing, \<open>enough_space w n\<close> that the
  device accepts \<open>n\<close> more bytes. \<open>resize g\<close> replaces the size field of a message by
  \<open>g\<close> of the message and changes nothing else.
  For a download, \<open>delivered s s'\<close> is the messages the stream \<open>s'\<close> holds beyond those of
  \<open>s\<close>, \<open>bytes_of ms\<close> the bytes a list of download messages carries, and \<open>no_fault env\<close>
  says that no event of \<open>env\<close> is a device fault.
\<close>

definition payload :: "FileUploadRequest list \<Rightarrow> byte list" where
  "payload rs = concat (map Content rs)"

definition declared :: "FileUploadRequest list \<Rightarrow> int64" where
  "declared rs = (case rs of [] \<Rightarrow> 0 | r # rest \<Rightarrow> Size r)"

definition openable :: "world \<Rightarrow> FileUploadRequest list \<Rightarrow> bool" where
  "openable w rs =
     (case rs of [] \<Rightarrow> True | r # rest \<Rightarrow> Filename r \<noteq> [] \<and> Filename r \<notin> set (denied w))"

definition enough_space :: "world \<Rightarrow> nat \<Rightarrow> bool" where
  "enough_space w n = (case quota w of None \<Rightarrow> True | Some q \<Rightarrow> n \<le> q)"

definition resize :: "(FileUploadRequest \<Rightarrow> int64) \<Rightarrow> recv_event \<Rightarrow> recv_event" where
  "resize g ev = (case ev of Msg m \<Rightarrow> Msg (m\<lparr>Size := g m\<rparr>) | Broken e \<Rightarrow> Broken e)"

definition delivered :: "dstream \<Rightarrow> dstream \<Rightarrow> FileDownloadResponse list" where
  "delivered s s' = drop (length (sent s)) (sent s')"



section \<open>Concrete systems and streams\<close>

text \<open>
  \<open>fresh\<close> is a system with no file, no open handle and no fault; \<open>holding p c\<close> is
  \<open>fresh\<close> with one file, of content \<open>c\<close>, at path \<open>p\<close>. \<open>client evs\<close> is an upload
  stream that delivers \<open>evs\<close> and closes without error, \<open>receiver\<close> a download stream that
  accepts every message, \<open>wanted name\<close> the request for a file. \<open>host\<close> has every address
  free, a working random source, and takes a certificate and a key to match when they
  are equal; \<open>secure cert key\<close> asks for TLS with these two paths.
\<close>

definition fresh :: world where
  "fresh = \<lparr>files = Map.empty, handles = Map.empty, next_fd = 0, opened = [], logged = [],
            denied = [], quota = None, stat_fault = None, read_fault = None\<rparr>"

definition holding :: "string \<Rightarrow> byte list \<Rightarrow> world" where
  "holding p c = fresh\<lparr>files := [p \<mapsto> c]\<rparr>"

definition client :: "recv_event list \<Rightarrow> ustream" where
  "client evs = \<lparr>incoming = evs, close_fault = None, response = None\<rparr>"

definition chunk :: "string \<Rightarrow> byte list \<Rightarrow> int64 \<Rightarrow> recv_event" where
  "chunk name b n = Msg \<lparr>Filename = name, Content = b, Size = n\<rparr>"

definition receiver :: dstream where
  "receiver = \<lparr>sent = [], broken_after = None\<rparr>"

definition wanted :: "string \<Rightarrow> FileDownloadRequest" where
  "wanted name = \<lparr>Filename_rq = name\<rparr>"

definition host :: netenv where
  "host = \<lparr>bound = [], entropy = Some [7], parses = (\<lambda>c k. c = k)\<rparr>"

definition secure :: "string \<Rightarrow> string \<Rightarrow> ServerOption" where
  "secure cert key =
     \<lparr>Listen = ''localhost'', Port = 8022, TLS = True, CertFile = cert, KeyFile = key\<rparr>"

definition ack :: FileUploadResponse where
  "ack = newUploadResponse ''Upload received successfully''"

section \<open>Unfolding the upload loop\<close>

declare upload_loop.simps [simp del]

lemma upload_loop_EOF:
  "incoming s = [] \<Longrightarrow>
   upload_loop s once f totalBytes expectedSize w =
     (if totalBytes \<noteq> expectedSize
      then (Some (SizeMismatch expectedSize totalBytes), s, slog (UploadCompleted totalBytes) w)
      else (case SendAndClose (newUploadResponse ''Upload received successfully'') s of
              (r, s2) \<Rightarrow> (r, s2, slog (UploadCompleted totalBytes) w)))"
  by (subst upload_loop.simps) (simp add: Recv_def)

lemma upload_loop_Broken:
  "incoming s = Broken e # rest \<Longrightarrow>
   upload_loop s once f totalBytes expectedSize w =
     (Some (RecvFailed e), s\<lparr>incoming := rest\<rparr>, w)"
  by (subst upload_loop.simps) (simp add: Recv_def)

lemma upload_loop_Msg:
  "incoming s = Msg req # rest \<Longrightarrow>
   upload_loop s once f totalBytes expectedSize w =
     (case (if once then (None, f, expectedSize, w) else first_chunk req w) of
        (err, f1, expectedSize1, w1) \<Rightarrow>
          (case err of
             Some e \<Rightarrow> (Some (OpenFailed e), s\<lparr>incoming := rest\<rparr>, w1)
           | None \<Rightarrow>
               (case f1 of
                  None \<Rightarrow> (Some (OpenFailed ''%!w(<nil>)''), s\<lparr>incoming := rest\<rparr>, w1)
                | Some fd \<Rightarrow>
                    (case Write fd (Content req) w1 of
                       ((n, Some e), w2) \<Rightarrow> (Some (WriteFailed e), s\<lparr>incoming := rest\<rparr>, w2)
                     | ((n, None), w2) \<Rightarrow>
                         upload_loop (s\<lparr>incoming := rest\<rparr>) True f1
                           (totalBytes + of_nat n) expectedSize1 w2))))"
  by (subst upload_loop.simps) (simp add: Recv_def)

section \<open>An upload stream that ends before any message\<close>

text \<open>
  C10. When end-of-stream is the first thing the transport delivers, upload closes the
  stream with the success acknowledgement and logs a byte count of 0; it opens and
  creates no file: the files, the open handles and the trace of open calls are those
  of before.
\<close>

theorem upload_empty_stream:
  assumes "incoming s = []" and "close_fault s = None"
  shows "upload s w = (None, s\<lparr>response := Some ack\<rparr>, slog (UploadCompleted 0) w)
         \<and> files (snd (snd (upload s w))) = files w
         \<and> opened (snd (snd (upload s w))) = opened w
         \<and> handles (snd (snd (upload s w))) = handles w"
  using assms by (simp add: upload_def upload_loop_EOF SendAndClose_def slog_def ack_def)

theorem upload_empty_stream_witness:
  "upload (client []) fresh
     = (None, \<lparr>incoming = [], close_fault = None, response = Some ack\<rparr>,
        fresh\<lparr>logged := [UploadCompleted 0]\<rparr>)
   \<and> files (snd (snd (upload (client []) fresh))) ''a'' = None
   \<and> opened (snd (snd (upload (client []) fresh))) = []"
  using upload_empty_stream [of "client []" fresh]
  by (simp add: client_def fresh_def slog_def)

section \<open>Writes and the first chunk\<close>

lemma payload_Nil [simp]: "payload [] = []"
  by (simp add: payload_def)

lemma payload_Cons [simp]: "payload (r # rs) = Content r @ payload rs"
  by (simp add: payload_def)

lemma Write_success:
  assumes "handles w fd = Some h" and "Write fd b w = ((n, None), w2)"
  shows "n = length b
         \<and> w2 = w\<lparr>files := (files w)(path h \<mapsto>
                      take (pos h) (content_at w (path h))
                        @ replicate (pos h - length (content_at w (path h))) 0
                        @ b @ drop (pos h + length b) (content_at w (path h))),
                   handles := (handles w)(fd \<mapsto> h\<lparr>pos := pos h + length b\<rparr>),
                   quota := map_option (\<lambda>q. q - length b) (quota w)\<rparr>"
  using assms
  by (auto simp: Write_def Let_def min_def split: option.splits if_splits)

lemma Write_enough:
  assumes "handles w fd = Some h" and "enough_space w (length b)"
  shows "Write fd b w =
           ((length b, None),
            w\<lparr>files := (files w)(path h \<mapsto>
                      take (pos h) (content_at w (path h))
                        @ replicate (pos h - length (content_at w (path h))) 0
                        @ b @ drop (pos h + length b) (content_at w (path h))),
                   handles := (handles w)(fd \<mapsto> h\<lparr>pos := pos h + length b\<rparr>),
                   quota := map_option (\<lambda>q. q - length b) (quota w)\<rparr>)"
  using assms
  by (auto simp: Write_def Let_def min_def enough_space_def split: option.splits if_splits)

lemma Write_frame:
  "opened (snd (Write fd b w)) = opened w \<and> logged (snd (Write fd b w)) = logged w
   \<and> next_fd (snd (Write fd b w)) = next_fd w \<and> denied (snd (Write fd b w)) = denied w"
  by (simp add: Write_def Let_def split: option.splits)

lemma enough_space_after_Write:
  assumes "enough_space w (length b + n)"
  shows "enough_space (w\<lparr>files := fs, handles := hs,
                         quota := map_option (\<lambda>q. q - length b) (quota w)\<rparr>) n"
  using assms by (auto simp: enough_space_def split: option.splits)

lemma enough_space_less:
  "enough_space w (m + n) \<Longrightarrow> enough_space w m"
  by (auto simp: enough_space_def split: option.splits)

lemma first_chunk_ok:
  assumes "Filename req \<noteq> []" and "Filename req \<notin> set (denied w)"
  shows "first_chunk req w =
           (None, Some (next_fd w), Size req,
            w\<lparr>logged := logged w @ [AcceptUpload (Filename req) (Size req)],
              opened := opened w @ [Filename req],
              files := (files w)(Filename req \<mapsto> content_at w (Filename req)),
              handles := (handles w)(next_fd w \<mapsto> \<lparr>path = Filename req, pos = 0\<rparr>),
              next_fd := Suc (next_fd w)\<rparr>)"
  using assms
  by (auto simp: first_chunk_def OpenFile_def slog_def Let_def content_at_def map_upd_triv
           split: option.splits)

lemma first_chunk_refused:
  assumes "Filename req = [] \<or> Filename req \<in> set (denied w)"
  shows "first_chunk req w =
           (Some ''open failed'', None, Size req,
            w\<lparr>logged := logged w @ [AcceptUpload (Filename req) (Size req)],
              opened := opened w @ [Filename req]\<rparr>)"
  using assms
  by (auto simp: first_chunk_def OpenFile_def slog_def Let_def)

lemma upload_loop_first:
  assumes "incoming s = Msg req # rest" and "first_chunk req w = (None, Some fd, es1, w1)"
  shows "upload_loop s False f tb es w = upload_loop s True (Some fd) tb es1 w1"
  using assms by (simp add: upload_loop_Msg)

lemma upload_loop_first_refused:
  assumes "incoming s = Msg req # rest" and "first_chunk req w = (Some e, f1, es1, w1)"
  shows "upload_loop s False f tb es w = (Some (OpenFailed e), s\<lparr>incoming := rest\<rparr>, w1)"
  using assms by (simp add: upload_loop_Msg)

section \<open>What a successful upload leaves on disk\<close>

text \<open>
  The invariant of the loop once the file is open: the bytes received so far stand in
  the file from the offset the handle had, over what the file held there, and whatever
  the file held beyond them is still there.
\<close>

lemma upload_loop_success:
  assumes "incoming s = map Msg rs"
    and "handles w fd = Some h"
    and "files w (path h) = Some old"
    and "pos h \<le> length old"
    and "upload_loop s True (Some fd) tb es w = (None, s', w')"
  shows "files w' (path h)
           = Some (take (pos h) old @ payload rs @ drop (pos h + length (payload rs)) old)
         \<and> handles w' fd = Some (h\<lparr>pos := pos h + length (payload rs)\<rparr>)
         \<and> opened w' = opened w
         \<and> tb + of_nat (length (payload rs)) = es
         \<and> response s' = Some ack
         \<and> logged w' = logged w @ [UploadCompleted es]"
  using assms
proof (induction rs arbitrary: s w h old tb)
  case Nil
  then show ?case
    by (auto simp: upload_loop_EOF SendAndClose_def slog_def ack_def
             split: if_splits option.splits)
next
  case (Cons r rs)
  from Cons.prems(1) have inc: "incoming s = Msg r # map Msg rs" by simp
  let ?s1 = "s\<lparr>incoming := map Msg rs\<rparr>"
  obtain n e w2 where wr: "Write fd (Content r) w = ((n, e), w2)"
    by (metis prod.exhaust)
  from Cons.prems(5) inc wr have e: "e = None"
    by (cases e) (simp_all add: upload_loop_Msg)
  from Cons.prems(5) inc wr e
  have run: "upload_loop ?s1 True (Some fd) (tb + of_nat n) es w2 = (None, s', w')"
    by (simp add: upload_loop_Msg)
  from Write_success [OF Cons.prems(2) wr [unfolded e]] Cons.prems(3,4)
  have n: "n = length (Content r)"
    and w2: "w2 = w\<lparr>files := (files w)(path h \<mapsto>
                      take (pos h) old @ Content r @ drop (pos h + length (Content r)) old),
                   handles := (handles w)(fd \<mapsto> h\<lparr>pos := pos h + length (Content r)\<rparr>),
                   quota := map_option (\<lambda>q. q - length (Content r)) (quota w)\<rparr>"
    by (simp_all add: content_at_def)
  let ?h2 = "h\<lparr>pos := pos h + length (Content r)\<rparr>"
  let ?old2 = "take (pos h) old @ Content r @ drop (pos h + length (Content r)) old"
  have a: "incoming ?s1 = map Msg rs" by simp
  have b: "handles w2 fd = Some ?h2" by (simp add: w2)
  have c: "files w2 (path ?h2) = Some ?old2" by (simp add: w2)
  have d: "pos ?h2 \<le> length ?old2" using Cons.prems(4) by simp
  note IH = Cons.IH [OF a b c d run]
  have t: "take (pos ?h2) ?old2 = take (pos h) old @ Content r"
    using Cons.prems(4) by simp
  have dr: "drop (pos ?h2 + length (payload rs)) ?old2
              = drop (pos h + length (payload (r # rs))) old"
    using Cons.prems(4) by (simp add: add.commute add.left_commute)
  from IH show ?case
    unfolding t dr by (simp add: n w2 add.assoc)
qed

text \<open>
  C1, as amended. For an upload delivered in at least one message that returns success:
  the destination file, named by the first message, exists and starts with the uploaded
  bytes, followed by whatever the file held before beyond that length (the open has no
  \<^verbatim>\<open>O_TRUNC\<close>). So when the destination was absent, or held no more bytes than were
  uploaded, its content is exactly the uploaded bytes and its size their number, which
  is the declared size.
\<close>

theorem upload_stores_payload:
  assumes "incoming s = map Msg (r # rs)"
    and "upload s w = (None, s', w')"
  shows "files w' (Filename r)
           = Some (payload (r # rs)
                   @ drop (length (payload (r # rs))) (content_at w (Filename r)))
         \<and> (length (content_at w (Filename r)) \<le> length (payload (r # rs))
              \<longrightarrow> files w' (Filename r) = Some (payload (r # rs)))
         \<and> of_nat (length (payload (r # rs))) = Size r"
proof -
  from assms(1) have inc: "incoming s = Msg r # map Msg rs" by simp
  have ok: "Filename r \<noteq> [] \<and> Filename r \<notin> set (denied w)"
  proof (rule ccontr)
    assume "\<not> ?thesis"
    then have "Filename r = [] \<or> Filename r \<in> set (denied w)" by blast
    from upload_loop_first_refused [OF inc first_chunk_refused [OF this]] assms(2)
    show False by (simp add: upload_def)
  qed
  define w1 where "w1 = w\<lparr>logged := logged w @ [AcceptUpload (Filename r) (Size r)],
              opened := opened w @ [Filename r],
              files := (files w)(Filename r \<mapsto> content_at w (Filename r)),
              handles := (handles w)(next_fd w \<mapsto> \<lparr>path = Filename r, pos = 0\<rparr>),
              next_fd := Suc (next_fd w)\<rparr>"
  from ok have fc: "first_chunk r w = (None, Some (next_fd w), Size r, w1)"
    unfolding w1_def by (intro first_chunk_ok) simp_all
  from upload_loop_first [OF inc fc] assms(2)
  have run: "upload_loop s True (Some (next_fd w)) 0 (Size r) w1 = (None, s', w')"
    by (simp add: upload_def)
  let ?h = "\<lparr>path = Filename r, pos = 0\<rparr>"
  have a: "handles w1 (next_fd w) = Some ?h" by (simp add: w1_def)
  have b: "files w1 (path ?h) = Some (content_at w (Filename r))" by (simp add: w1_def)
  have c: "pos ?h \<le> length (content_at w (Filename r))" by simp
  from upload_loop_success [OF assms(1) a b c run]
  have stored: "files w' (Filename r)
           = Some (payload (r # rs)
                   @ drop (length (payload (r # rs))) (content_at w (Filename r)))"
    and size: "of_nat (length (payload (r # rs))) = Size r"
    by simp_all
  from stored size show ?thesis by simp
qed

theorem upload_stores_payload_witness:
  "files (snd (snd (upload (client [chunk ''a'' [1, 2] 3, chunk ''b'' [3] 0]) (holding ''a'' [7]))))
     ''a'' = Some [1, 2, 3]"
proof -
  let ?s = "client [chunk ''a'' [1, 2] 3, chunk ''b'' [3] 0]"
  let ?r = "\<lparr>Filename = ''a'', Content = [1, 2], Size = 3\<rparr>"
  let ?rs = "[\<lparr>Filename = ''b'', Content = [3], Size = 0\<rparr>]"
  have inc: "incoming ?s = map Msg (?r # ?rs)"
    by (simp add: client_def chunk_def)
  have "fst (upload ?s (holding ''a'' [7])) = None"
    by (simp add: upload_def upload_loop_Msg upload_loop_EOF client_def chunk_def holding_def
          fresh_def first_chunk_def OpenFile_def slog_def Write_def content_at_def
          SendAndClose_def)
  then obtain s' w' where run: "upload ?s (holding ''a'' [7]) = (None, s', w')"
    by (metis prod.collapse)
  from upload_stores_payload [OF inc run] run show ?thesis
    by (simp add: content_at_def holding_def fresh_def)
qed

text \<open>
  C1 as stated fails: uploading the one byte 9 to a file that holds 1, 2, 3 returns
  success and leaves 9, 2, 3 in the file.
\<close>

theorem upload_keeps_old_tail:
  "fst (upload (client [chunk ''a'' [9] 1]) (holding ''a'' [1, 2, 3])) = None
   \<and> files (snd (snd (upload (client [chunk ''a'' [9] 1]) (holding ''a'' [1, 2, 3])))) ''a''
       = Some [9, 2, 3]
   \<and> files (snd (snd (upload (client [chunk ''a'' [9] 1]) (holding ''a'' [1, 2, 3])))) ''a''
       \<noteq> Some [9]"
  by (simp add: upload_def upload_loop_Msg upload_loop_EOF client_def chunk_def holding_def
        fresh_def first_chunk_def OpenFile_def slog_def Write_def content_at_def
        SendAndClose_def)

section \<open>End of stream: the size check\<close>

lemma upload_loop_running:
  assumes "incoming s = map Msg rs"
    and "handles w fd = Some h"
    and "enough_space w (length (payload rs))"
  shows "fst (upload_loop s True (Some fd) tb es w)
           = (if tb + of_nat (length (payload rs)) = es
              then map_option TransportError (close_fault s)
              else Some (SizeMismatch es (tb + of_nat (length (payload rs)))))
         \<and> response (fst (snd (upload_loop s True (Some fd) tb es w)))
           = (if tb + of_nat (length (payload rs)) = es \<and> close_fault s = None
              then Some ack else response s)"
  using assms
proof (induction rs arbitrary: s w h tb)
  case Nil
  then show ?case
    by (auto simp: upload_loop_EOF SendAndClose_def ack_def split: option.splits)
next
  case (Cons r rs)
  from Cons.prems(1) have inc: "incoming s = Msg r # map Msg rs" by simp
  let ?s1 = "s\<lparr>incoming := map Msg rs\<rparr>"
  let ?b = "Content r"
  let ?w2 = "w\<lparr>files := (files w)(path h \<mapsto>
                      take (pos h) (content_at w (path h))
                        @ replicate (pos h - length (content_at w (path h))) 0
                        @ ?b @ drop (pos h + length ?b) (content_at w (path h))),
                   handles := (handles w)(fd \<mapsto> h\<lparr>pos := pos h + length ?b\<rparr>),
                   quota := map_option (\<lambda>q. q - length ?b) (quota w)\<rparr>"
  from Cons.prems(3) have sp: "enough_space w (length ?b + length (payload rs))"
    by simp
  have wr: "Write fd ?b w = ((length ?b, None), ?w2)"
    by (rule Write_enough [OF Cons.prems(2) enough_space_less [OF sp]])
  have step: "upload_loop s True (Some fd) tb es w
                = upload_loop ?s1 True (Some fd) (tb + of_nat (length ?b)) es ?w2"
    using inc wr by (simp add: upload_loop_Msg)
  have a: "incoming ?s1 = map Msg rs" by simp
  have b: "handles ?w2 fd = Some (h\<lparr>pos := pos h + length ?b\<rparr>)" by simp
  have c: "enough_space ?w2 (length (payload rs))"
    by (rule enough_space_after_Write [OF sp])
  from Cons.IH [OF a b c, of "tb + of_nat (length ?b)"] show ?case
    unfolding step by (simp add: add.assoc)
qed

text \<open>
  C2. For a stream of messages \<open>rs\<close> followed by end-of-stream, on a system that lets
  the destination be opened and written: upload compares the number of bytes received,
  as an int64, with the size declared by the first message. When they are equal it
  hands the success acknowledgement to \<^verbatim>\<open>SendAndClose\<close> and returns its result (no error
  on a sound transport); when they differ it returns the size-mismatch error holding the
  declared size and the byte count, and the stream gets no response.
\<close>

theorem upload_end_of_stream:
  assumes "incoming s = map Msg rs"
    and "openable w rs"
    and "enough_space w (length (payload rs))"
  shows "fst (upload s w)
           = (if of_nat (length (payload rs)) = declared rs
              then map_option TransportError (close_fault s)
              else Some (SizeMismatch (declared rs) (of_nat (length (payload rs)))))
         \<and> response (fst (snd (upload s w)))
           = (if of_nat (length (payload rs)) = declared rs \<and> close_fault s = None
              then Some ack else response s)"
proof (cases rs)
  case Nil
  with assms(1) show ?thesis
    by (auto simp: upload_def upload_loop_EOF declared_def SendAndClose_def ack_def
             split: option.splits)
next
  case (Cons r rest)
  with assms(1) have inc: "incoming s = Msg r # map Msg rest" by simp
  from assms(2) Cons have ok: "Filename r \<noteq> []" "Filename r \<notin> set (denied w)"
    by (simp_all add: openable_def)
  define w1 where "w1 = w\<lparr>logged := logged w @ [AcceptUpload (Filename r) (Size r)],
              opened := opened w @ [Filename r],
              files := (files w)(Filename r \<mapsto> content_at w (Filename r)),
              handles := (handles w)(next_fd w \<mapsto> \<lparr>path = Filename r, pos = 0\<rparr>),
              next_fd := Suc (next_fd w)\<rparr>"
  have fc: "first_chunk r w = (None, Some (next_fd w), Size r, w1)"
    unfolding w1_def by (rule first_chunk_ok [OF ok])
  have step: "upload s w = upload_loop s True (Some (next_fd w)) 0 (Size r) w1"
    unfolding upload_def by (rule upload_loop_first [OF inc fc])
  have a: "handles w1 (next_fd w) = Some \<lparr>path = Filename r, pos = 0\<rparr>"
    by (simp add: w1_def)
  have b: "enough_space w1 (length (payload rs))"
    using assms(3) by (simp add: w1_def enough_space_def)
  from upload_loop_running [OF assms(1) a b, of 0 "Size r"] show ?thesis
    unfolding step by (simp add: declared_def Cons)
qed

theorem upload_end_of_stream_witness:
  "fst (upload (client [chunk ''a'' [1, 2] 3, chunk ''a'' [3] 0]) fresh) = None
   \<and> response (fst (snd (upload (client [chunk ''a'' [1, 2] 3, chunk ''a'' [3] 0]) fresh)))
       = Some ack
   \<and> fst (upload (client [chunk ''a'' [1, 2] 5, chunk ''a'' [3] 3]) fresh)
       = Some (SizeMismatch 5 3)
   \<and> response (fst (snd (upload (client [chunk ''a'' [1, 2] 5, chunk ''a'' [3] 3]) fresh)))
       = None"
proof -
  let ?ok = "[\<lparr>Filename = ''a'', Content = [1, 2], Size = 3\<rparr>,
              \<lparr>Filename = ''a'', Content = [3], Size = 0\<rparr>]"
  let ?bad = "[\<lparr>Filename = ''a'', Content = [1, 2], Size = 5\<rparr>,
               \<lparr>Filename = ''a'', Content = [3], Size = 3\<rparr>]"
  have 1: "incoming (client [chunk ''a'' [1, 2] 3, chunk ''a'' [3] 0]) = map Msg ?ok"
    by (simp add: client_def chunk_def)
  have 2: "incoming (client [chunk ''a'' [1, 2] 5, chunk ''a'' [3] 3]) = map Msg ?bad"
    by (simp add: client_def chunk_def)
  have 3: "openable fresh ?ok" "openable fresh ?bad"
    by (simp_all add: openable_def fresh_def)
  have 4: "enough_space fresh (length (payload ?ok))" "enough_space fresh (length (payload ?bad))"
    by (simp_all add: enough_space_def fresh_def)
  from upload_end_of_stream [OF 1 3(1) 4(1)] upload_end_of_stream [OF 2 3(2) 4(2)]
  show ?thesis
    by (simp add: declared_def client_def)
qed

section \<open>One open per upload\<close>

lemma upload_loop_opened:
  "opened (snd (snd (upload_loop s True f tb es w))) = opened w"
proof (induction evs \<equiv> "incoming s" arbitrary: s tb w)
  case Nil
  then show ?case
    by (simp add: upload_loop_EOF [OF Nil [symmetric]] slog_def split: prod.splits)
next
  case (Cons ev evs)
  show ?case
  proof (cases ev)
    case (Broken e)
    with Cons(2) [symmetric] show ?thesis by (simp add: upload_loop_Broken [of s e evs])
  next
    case (Msg r)
    with Cons(2) [symmetric] have inc: "incoming s = Msg r # evs" by simp
    have rest: "evs = incoming (s\<lparr>incoming := evs\<rparr>)" by simp
    show ?thesis
    proof (cases f)
      case None
      then show ?thesis by (simp add: upload_loop_Msg [OF inc])
    next
      case (Some fd)
      obtain n e w2 where wr: "Write fd (Content r) w = ((n, e), w2)"
        by (metis prod.exhaust)
      from Write_frame [of fd "Content r" w] wr have fr: "opened w2 = opened w" by simp
      show ?thesis
      proof (cases e)
        case None
        with Cons(1) [OF rest, of "tb + of_nat n" w2] fr wr Some show ?thesis
          by (simp add: upload_loop_Msg [OF inc])
      next
        case (Some e')
        with fr wr \<open>f = Some fd\<close> show ?thesis
          by (simp add: upload_loop_Msg [OF inc])
      qed
    qed
  qed
qed

lemma upload_loop_resize:
  assumes "incoming s2 = map (resize g) (incoming s1)"
    and "close_fault s2 = close_fault s1"
    and "response s2 = response s1"
  shows "fst (upload_loop s2 True f tb es w) = fst (upload_loop s1 True f tb es w)
         \<and> response (fst (snd (upload_loop s2 True f tb es w)))
             = response (fst (snd (upload_loop s1 True f tb es w)))
         \<and> snd (snd (upload_loop s2 True f tb es w)) = snd (snd (upload_loop s1 True f tb es w))"
  using assms
proof (induction evs \<equiv> "incoming s1" arbitrary: s1 s2 tb w)
  case Nil
  then have "incoming s1 = []" "incoming s2 = []" by simp_all
  with Nil(3,4) show ?case
    by (simp add: upload_loop_EOF SendAndClose_def split: option.splits)
next
  case (Cons ev evs)
  show ?case
  proof (cases ev)
    case (Broken e)
    with Cons(2) [symmetric] Cons(3) have "incoming s1 = Broken e # evs"
      "incoming s2 = Broken e # map (resize g) evs"
      by (simp_all add: resize_def)
    with Cons(5) show ?thesis by (simp add: upload_loop_Broken)
  next
    case (Msg r)
    with Cons(2) [symmetric] Cons(3) have inc1: "incoming s1 = Msg r # evs"
      and inc2: "incoming s2 = Msg (r\<lparr>Size := g r\<rparr>) # map (resize g) evs"
      by (simp_all add: resize_def)
    let ?t1 = "s1\<lparr>incoming := evs\<rparr>" and ?t2 = "s2\<lparr>incoming := map (resize g) evs\<rparr>"
    have a: "evs = incoming ?t1" by simp
    have b: "incoming ?t2 = map (resize g) (incoming ?t1)" by simp
    have c: "close_fault ?t2 = close_fault ?t1" using Cons(4) by simp
    have d: "response ?t2 = response ?t1" using Cons(5) by simp
    note IH = Cons(1) [OF a b c d]
    show ?thesis
    proof (cases f)
      case None
      with Cons(5) show ?thesis
        by (simp add: upload_loop_Msg [OF inc1] upload_loop_Msg [OF inc2])
    next
      case (Some fd)
      obtain n e w2 where wr: "Write fd (Content r) w = ((n, e), w2)"
        by (metis prod.exhaust)
      show ?thesis
      proof (cases e)
        case None
        with IH [of "tb + of_nat n" w2] wr Some show ?thesis
          by (simp add: upload_loop_Msg [OF inc1] upload_loop_Msg [OF inc2])
      next
        case (Some e')
        with wr \<open>f = Some fd\<close> Cons(5) show ?thesis
          by (simp add: upload_loop_Msg [OF inc1] upload_loop_Msg [OF inc2])
      qed
    qed
  qed
qed

text \<open>
  One open call, for the file the first message names, whatever follows it; and the size
  fields of the later messages change nothing.
\<close>

lemma upload_one_open_any_sizes:
  assumes "incoming s = Msg r # rest"
  shows "opened (snd (snd (upload s w))) = opened w @ [Filename r]
         \<and> fst (upload (s\<lparr>incoming := Msg r # map (resize g) rest\<rparr>) w) = fst (upload s w)
         \<and> response (fst (snd (upload (s\<lparr>incoming := Msg r # map (resize g) rest\<rparr>) w)))
             = response (fst (snd (upload s w)))
         \<and> snd (snd (upload (s\<lparr>incoming := Msg r # map (resize g) rest\<rparr>) w))
             = snd (snd (upload s w))"
proof (cases "Filename r = [] \<or> Filename r \<in> set (denied w)")
  case True
  let ?s2 = "s\<lparr>incoming := Msg r # map (resize g) rest\<rparr>"
  have inc2: "incoming ?s2 = Msg r # map (resize g) rest" by simp
  from upload_loop_first_refused [OF assms first_chunk_refused [OF True]]
       upload_loop_first_refused [OF inc2 first_chunk_refused [OF True]]
  show ?thesis by (simp add: upload_def)
next
  case False
  then have ok: "Filename r \<noteq> []" "Filename r \<notin> set (denied w)" by simp_all
  let ?s2 = "s\<lparr>incoming := Msg r # map (resize g) rest\<rparr>"
  have inc2: "incoming ?s2 = Msg r # map (resize g) rest" by simp
  define w1 where "w1 = w\<lparr>logged := logged w @ [AcceptUpload (Filename r) (Size r)],
              opened := opened w @ [Filename r],
              files := (files w)(Filename r \<mapsto> content_at w (Filename r)),
              handles := (handles w)(next_fd w \<mapsto> \<lparr>path = Filename r, pos = 0\<rparr>),
              next_fd := Suc (next_fd w)\<rparr>"
  have fc: "first_chunk r w = (None, Some (next_fd w), Size r, w1)"
    unfolding w1_def by (rule first_chunk_ok [OF ok])
  let ?fd = "next_fd w"
  obtain n e w2 where wr: "Write ?fd (Content r) w1 = ((n, e), w2)"
    by (metis prod.exhaust)
  from Write_frame [of ?fd "Content r" w1] wr have fr: "opened w2 = opened w @ [Filename r]"
    by (simp add: w1_def)
  show ?thesis
  proof (cases e)
    case (Some e')
    with wr fc fr show ?thesis
      by (simp add: upload_def upload_loop_Msg [OF assms] upload_loop_Msg [OF inc2])
  next
    case None
    let ?t1 = "s\<lparr>incoming := rest\<rparr>" and ?t2 = "?s2\<lparr>incoming := map (resize g) rest\<rparr>"
    have u1: "upload s w = upload_loop ?t1 True (Some ?fd) (0 + of_nat n) (Size r) w2"
      using wr fc None by (simp add: upload_def upload_loop_Msg [OF assms])
    have u2: "upload ?s2 w = upload_loop ?t2 True (Some ?fd) (0 + of_nat n) (Size r) w2"
      using wr fc None by (simp add: upload_def upload_loop_Msg [OF inc2])
    have b: "incoming ?t2 = map (resize g) (incoming ?t1)" by simp
    have c: "close_fault ?t2 = close_fault ?t1" by simp
    have d: "response ?t2 = response ?t1" by simp
    from upload_loop_resize [OF b c d, of "Some ?fd" "0 + of_nat n" "Size r" w2]
         upload_loop_opened [of ?t1 "Some ?fd" "0 + of_nat n" "Size r" w2] fr
    show ?thesis unfolding u1 u2 by simp
  qed
qed

text \<open>
  The size compared at end-of-stream is the value \<open>expectedSize\<close> has once the first
  message is in: a size mismatch reports it as the expected size, and success means that
  the byte count logged is equal to it.
\<close>

lemma upload_loop_compares:
  "(\<forall>e t. fst (upload_loop s True f tb es w) = Some (SizeMismatch e t) \<longrightarrow> e = es \<and> t \<noteq> es)
   \<and> (fst (upload_loop s True f tb es w) = None \<longrightarrow>
        logged (snd (snd (upload_loop s True f tb es w))) = logged w @ [UploadCompleted es])"
proof (induction evs \<equiv> "incoming s" arbitrary: s tb w)
  case Nil
  show ?case
    by (auto simp: upload_loop_EOF [OF Nil [symmetric]] slog_def SendAndClose_def
             split: prod.splits option.splits)
next
  case (Cons ev evs)
  show ?case
  proof (cases ev)
    case (Broken e)
    with Cons(2) [symmetric] show ?thesis by (simp add: upload_loop_Broken [of s e evs])
  next
    case (Msg r)
    with Cons(2) [symmetric] have inc: "incoming s = Msg r # evs" by simp
    have rest: "evs = incoming (s\<lparr>incoming := evs\<rparr>)" by simp
    show ?thesis
    proof (cases f)
      case None
      then show ?thesis by (simp add: upload_loop_Msg [OF inc])
    next
      case (Some fd)
      obtain n e w2 where wr: "Write fd (Content r) w = ((n, e), w2)"
        by (metis prod.exhaust)
      from Write_frame [of fd "Content r" w] wr have fr: "logged w2 = logged w" by simp
      show ?thesis
      proof (cases e)
        case None
        with Cons(1) [OF rest, of "tb + of_nat n" w2] fr wr Some show ?thesis
          by (simp add: upload_loop_Msg [OF inc])
      next
        case (Some e')
        with wr \<open>f = Some fd\<close> show ?thesis
          by (simp add: upload_loop_Msg [OF inc])
      qed
    qed
  qed
qed

lemma upload_compares_first_size:
  assumes "incoming s = Msg r # rest"
  shows "(\<forall>e t. fst (upload s w) = Some (SizeMismatch e t) \<longrightarrow> e = Size r \<and> t \<noteq> Size r)
         \<and> (fst (upload s w) = None \<longrightarrow>
              logged (snd (snd (upload s w)))
                = logged w @ [AcceptUpload (Filename r) (Size r), UploadCompleted (Size r)])"
proof (cases "Filename r = [] \<or> Filename r \<in> set (denied w)")
  case True
  from upload_loop_first_refused [OF assms first_chunk_refused [OF True]]
  show ?thesis by (simp add: upload_def)
next
  case False
  then have ok: "Filename r \<noteq> []" "Filename r \<notin> set (denied w)" by simp_all
  define w1 where "w1 = w\<lparr>logged := logged w @ [AcceptUpload (Filename r) (Size r)],
              opened := opened w @ [Filename r],
              files := (files w)(Filename r \<mapsto> content_at w (Filename r)),
              handles := (handles w)(next_fd w \<mapsto> \<lparr>path = Filename r, pos = 0\<rparr>),
              next_fd := Suc (next_fd w)\<rparr>"
  have fc: "first_chunk r w = (None, Some (next_fd w), Size r, w1)"
    unfolding w1_def by (rule first_chunk_ok [OF ok])
  have step: "upload s w = upload_loop s True (Some (next_fd w)) 0 (Size r) w1"
    unfolding upload_def by (rule upload_loop_first [OF assms fc])
  have lg: "logged w1 = logged w @ [AcceptUpload (Filename r) (Size r)]"
    by (simp add: w1_def)
  from upload_loop_compares [of s "Some (next_fd w)" 0 "Size r" w1] show ?thesis
    unfolding step lg by simp
qed

lemma upload_short_of_declared:
  "fst (upload (client [chunk ''a'' [1] 5, chunk ''b'' [2] 2]) fresh) = Some (SizeMismatch 5 2)"
  by (simp add: upload_def upload_loop_Msg upload_loop_EOF client_def chunk_def
        fresh_def first_chunk_def OpenFile_def slog_def Write_def content_at_def
        SendAndClose_def)

lemma upload_as_declared:
  "fst (upload (client [chunk ''a'' [1] 2, chunk ''b'' [2] 7, chunk ''c'' [] 9]) fresh) = None"
  by (simp add: upload_def upload_loop_Msg upload_loop_EOF client_def chunk_def
        fresh_def first_chunk_def OpenFile_def slog_def Write_def content_at_def
        SendAndClose_def)

text \<open>
  C5. Whenever the first event of an upload stream is a message, the upload issues
  exactly one open call, for the file that message names, whatever follows it; and
  replacing the size fields of all later messages by anything else changes neither the
  error returned, nor the response, nor the state of the system afterwards. The size
  used for the final check is the one the first message declares: a size mismatch
  reports that size as the expected one, with a byte count different from it, and
  on success the log holds the declared size of the first message, first as the size
  accepted and then as the byte count completed.
\<close>

theorem upload_opens_once:
  assumes "incoming s = Msg r # rest"
  shows "opened (snd (snd (upload s w))) = opened w @ [Filename r]
         \<and> fst (upload (s\<lparr>incoming := Msg r # map (resize g) rest\<rparr>) w) = fst (upload s w)
         \<and> response (fst (snd (upload (s\<lparr>incoming := Msg r # map (resize g) rest\<rparr>) w)))
             = response (fst (snd (upload s w)))
         \<and> snd (snd (upload (s\<lparr>incoming := Msg r # map (resize g) rest\<rparr>) w))
             = snd (snd (upload s w))
         \<and> (\<forall>e t. fst (upload s w) = Some (SizeMismatch e t) \<longrightarrow> e = Size r \<and> t \<noteq> Size r)
         \<and> (fst (upload s w) = None \<longrightarrow>
              logged (snd (snd (upload s w)))
                = logged w @ [AcceptUpload (Filename r) (Size r), UploadCompleted (Size r)])"
  using upload_one_open_any_sizes [OF assms, of w g] upload_compares_first_size [OF assms, of w]
  by (elim conjE) (intro conjI; assumption)

theorem upload_opens_once_witness:
  "opened (snd (snd (upload (client [chunk ''a'' [1] 2, chunk ''b'' [2] 7, chunk ''c'' [] 9]) fresh)))
     = [''a'']
   \<and> fst (upload (client [chunk ''a'' [1] 2, chunk ''b'' [2] 0, chunk ''c'' [] 0]) fresh)
       = fst (upload (client [chunk ''a'' [1] 2, chunk ''b'' [2] 7, chunk ''c'' [] 9]) fresh)
   \<and> logged (snd (snd (upload (client [chunk ''a'' [1] 2, chunk ''b'' [2] 7, chunk ''c'' [] 9])
         fresh)))
       = [AcceptUpload ''a'' 2, UploadCompleted 2]
   \<and> fst (upload (client [chunk ''a'' [1] 5, chunk ''b'' [2] 2]) fresh)
       = Some (SizeMismatch 5 2)"
  using upload_opens_once [of "client [chunk ''a'' [1] 2, chunk ''b'' [2] 7, chunk ''c'' [] 9]"
      "\<lparr>Filename = ''a'', Content = [1], Size = 2\<rparr>" "[chunk ''b'' [2] 7, chunk ''c'' [] 9]"
      fresh "\<lambda>m. 0"]
    upload_opens_once [of "client [chunk ''a'' [1] 5, chunk ''b'' [2] 2]"
      "\<lparr>Filename = ''a'', Content = [1], Size = 5\<rparr>" "[chunk ''b'' [2] 2]"
      fresh "\<lambda>m. 0"]
    upload_as_declared upload_short_of_declared
  by (simp add: client_def chunk_def resize_def fresh_def)

section \<open>The handle of an upload\<close>

text \<open>
  \<^verbatim>\<open>server.upload\<close> has no \<^verbatim>\<open>f.Close()\<close>: nothing it does removes a descriptor from
  the table of open handles. So once the first message has opened the destination, the
  descriptor is still open when the handler returns, whatever it returns.
\<close>

lemma Write_keeps_handles:
  "handles w fd' \<noteq> None \<Longrightarrow> handles (snd (Write fd b w)) fd' \<noteq> None"
  by (simp add: Write_def Let_def split: option.splits)

lemma first_chunk_keeps_handles:
  "handles w fd' \<noteq> None \<Longrightarrow> handles (snd (snd (snd (first_chunk req w)))) fd' \<noteq> None"
  by (simp add: first_chunk_def OpenFile_def slog_def Let_def split: option.splits)

lemma upload_loop_never_closes:
  "handles w fd' \<noteq> None \<Longrightarrow>
     handles (snd (snd (upload_loop s once f tb es w))) fd' \<noteq> None"
proof (induction evs \<equiv> "incoming s" arbitrary: s once f tb es w)
  case Nil
  then show ?case
    by (simp add: upload_loop_EOF [OF Nil(1) [symmetric]] slog_def split: prod.splits)
next
  case (Cons ev evs)
  show ?case
  proof (cases ev)
    case (Broken e)
    with Cons(2) [symmetric] Cons(3) show ?thesis
      by (simp add: upload_loop_Broken [of s e evs])
  next
    case (Msg r)
    with Cons(2) [symmetric] have inc: "incoming s = Msg r # evs" by simp
    have rest: "evs = incoming (s\<lparr>incoming := evs\<rparr>)" by simp
    obtain err f1 es1 w1
      where fc: "(if once then (None, f, es, w) else first_chunk r w) = (err, f1, es1, w1)"
      by (metis prod_cases4)
    have w1: "handles w1 fd' \<noteq> None"
    proof (cases once)
      case True
      with fc Cons(3) show ?thesis by simp
    next
      case False
      with fc first_chunk_keeps_handles [OF Cons(3), of r] show ?thesis by simp
    qed
    show ?thesis
    proof (cases err)
      case (Some e)
      with fc w1 show ?thesis by (simp add: upload_loop_Msg [OF inc])
    next
      case None
      show ?thesis
      proof (cases f1)
        case None
        with fc w1 \<open>err = None\<close> show ?thesis by (simp add: upload_loop_Msg [OF inc])
      next
        case (Some fd)
        obtain n e w2 where wr: "Write fd (Content r) w1 = ((n, e), w2)"
          by (metis prod.exhaust)
        from Write_keeps_handles [OF w1, of fd "Content r"] wr
        have w2: "handles w2 fd' \<noteq> None" by simp
        show ?thesis
        proof (cases e)
          case None
          with Cons(1) [OF rest w2, of True "Some fd" "tb + of_nat n" es1] fc wr Some
            \<open>err = None\<close>
          show ?thesis by (simp add: upload_loop_Msg [OF inc])
        next
          case (Some e')
          with fc wr w2 \<open>f1 = Some fd\<close> \<open>err = None\<close> show ?thesis
            by (simp add: upload_loop_Msg [OF inc])
        qed
      qed
    qed
  qed
qed

lemma upload_never_closes:
  assumes "incoming s = Msg r # rest"
    and "Filename r \<noteq> []" and "Filename r \<notin> set (denied w)"
  shows "handles (snd (snd (upload s w))) (next_fd w) \<noteq> None"
proof -
  define w1 where "w1 = w\<lparr>logged := logged w @ [AcceptUpload (Filename r) (Size r)],
              opened := opened w @ [Filename r],
              files := (files w)(Filename r \<mapsto> content_at w (Filename r)),
              handles := (handles w)(next_fd w \<mapsto> \<lparr>path = Filename r, pos = 0\<rparr>),
              next_fd := Suc (next_fd w)\<rparr>"
  have fc: "first_chunk r w = (None, Some (next_fd w), Size r, w1)"
    unfolding w1_def by (rule first_chunk_ok [OF assms(2,3)])
  have "handles w1 (next_fd w) \<noteq> None" by (simp add: w1_def)
  from upload_loop_never_closes [OF this] show ?thesis
    unfolding upload_def upload_loop_first [OF assms(1) fc] .
qed

text \<open>
  C4, for upload: the claim fails. After a successful upload of one message, the
  descriptor the session opened is still in the table of open handles, at the offset
  the write left it.
\<close>

theorem upload_leaves_handle_open:
  "fst (upload (client [chunk ''a'' [1] 1]) fresh) = None
   \<and> handles fresh 0 = None
   \<and> handles (snd (snd (upload (client [chunk ''a'' [1] 1]) fresh))) 0
       = Some \<lparr>path = ''a'', pos = 1\<rparr>"
  by (simp add: upload_def upload_loop_Msg upload_loop_EOF client_def chunk_def
        fresh_def first_chunk_def OpenFile_def slog_def Write_def content_at_def
        SendAndClose_def)

section \<open>Reads, sends and the download loop\<close>

declare download_loop.simps [simp del]



lemma Read_handles_other:
  "fd' \<noteq> fd \<Longrightarrow> handles (snd (Read fd n w)) fd' = handles w fd'"
  by (simp add: Read_def Let_def split: option.splits)

lemma fs_step_handles [simp]: "handles (fs_step e w) = handles w"
  by (cases e) (simp_all split: option.splits)






lemma delivered_append [simp]: "sent s' = sent s @ ms \<Longrightarrow> delivered s s' = ms"
  by (simp add: delivered_def)

lemma delivered_same [simp]: "delivered s s = []"
  by (simp add: delivered_def)



lemma download_opened:
  assumes "Filename_rq req \<notin> set (denied w)" and "files w (Filename_rq req) = Some c"
  shows "download env req s w =
           (let fd = next_fd w;
                w1 = w\<lparr>logged := logged w @ [AcceptDownload (Filename_rq req)],
                       opened := opened w @ [Filename_rq req],
                       handles := (handles w)(fd \<mapsto> \<lparr>path = Filename_rq req, pos = 0\<rparr>),
                       next_fd := Suc fd\<rparr>
            in case (case stat_fault w of
                       Some e \<Rightarrow> (Some (StatFailed e), s, w1)
                     | None \<Rightarrow>
                         download_loop env fd (Filename_rq req) (of_nat (length c)) 0 s w1) of
                 (r, s1, w2) \<Rightarrow> (r, s1, Close fd w2))"
  using assms
  by (simp add: download_def Open_def Stat_def slog_def Let_def content_at_def
           split: option.splits)




lemma download_loop_handles_other:
  "fd' \<noteq> fd \<Longrightarrow>
     handles (snd (snd (download_loop env fd name eb tb s w))) fd' = handles w fd'"
proof (induction env fd name eb tb s w rule: download_loop.induct)
  case (1 env fd name eb tb s w)
  obtain x w1 where rd: "Read fd StreamBufferSize (fs_step (next_event env) w) = (x, w1)"
    by (metis prod.exhaust)
  from Read_handles_other [OF "1.prems", of StreamBufferSize "fs_step (next_event env) w"] rd
  have w1: "handles w1 fd' = handles w fd'" by simp
  show ?case
  proof (cases x)
    case ReadEOF
    with rd w1 show ?thesis by (subst download_loop.simps) (simp add: Let_def slog_def)
  next
    case (ReadErr e)
    with rd w1 show ?thesis by (subst download_loop.simps) simp
  next
    case (ReadOk b)
    let ?m = "\<lparr>Message_rs = [], Filename_rs = name, Content_rs = b, Size_rs = eb\<rparr>"
    obtain r s1 where sd: "Send ?m s = (r, s1)" by (metis prod.exhaust)
    show ?thesis
    proof (cases r)
      case (Some e)
      with sd rd ReadOk w1 show ?thesis by (subst download_loop.simps) simp
    next
      case None
      from "1.IH" [OF rd [symmetric] ReadOk sd [symmetric] None "1.prems"] w1
        rd ReadOk sd None
      show ?thesis by (subst download_loop.simps) simp
    qed
  qed
qed

section \<open>Concrete downloads\<close>




section \<open>End of file: the size check\<close>



section \<open>The messages of a download\<close>



section \<open>Files of no bytes\<close>

text \<open>
  C9. An upload of one message with no content and declared size 0, to a file that can
  be opened, returns success with the acknowledgement and logs a byte count of 0; a
  download of a file of no bytes returns success, sends no message and logs a byte
  count of 0, which is the size stat gave.
\<close>

theorem zero_byte_transfers:
  assumes "incoming s = [Msg r]" and "Content r = []" and "Size r = 0"
    and "Filename r \<noteq> []" and "Filename r \<notin> set (denied wu)"
    and "close_fault s = None"
    and "files wd (Filename_rq req) = Some []" and "Filename_rq req \<notin> set (denied wd)"
    and "stat_fault wd = None" and "read_fault wd = None"
  shows "fst (upload s wu) = None
         \<and> response (fst (snd (upload s wu))) = Some ack
         \<and> logged (snd (snd (upload s wu)))
             = logged wu @ [AcceptUpload (Filename r) 0, UploadCompleted 0]
         \<and> fst (download [] req ds wd) = None
         \<and> fst (snd (download [] req ds wd)) = ds
         \<and> logged (snd (snd (download [] req ds wd)))
             = logged wd @ [AcceptDownload (Filename_rq req), DownloadCompleted 0]"
proof -
  have up: "fst (upload s wu) = None"
    "response (fst (snd (upload s wu))) = Some ack"
    "logged (snd (snd (upload s wu)))
       = logged wu @ [AcceptUpload (Filename r) 0, UploadCompleted 0]"
    using assms(2,3,6)
    by (simp_all add: upload_def upload_loop_Msg [OF assms(1)] first_chunk_ok [OF assms(4,5)]
          Write_def Let_def upload_loop_EOF SendAndClose_def slog_def ack_def
          split: option.splits)
  let ?fd = "next_fd wd" and ?name = "Filename_rq req"
  let ?w1 = "wd\<lparr>logged := logged wd @ [AcceptDownload ?name],
                 opened := opened wd @ [?name],
                 handles := (handles wd)(?fd \<mapsto> \<lparr>path = ?name, pos = 0\<rparr>),
                 next_fd := Suc ?fd\<rparr>"
  have loop: "download_loop [] ?fd ?name 0 0 ds ?w1
                = (None, ds, slog (DownloadCompleted 0) ?w1)"
    using assms(7,10)
    by (subst download_loop.simps)
       (simp add: next_event_def Read_def content_at_def StreamBufferSize_def)
  have down: "download [] req ds wd = (None, ds, Close ?fd (slog (DownloadCompleted 0) ?w1))"
    using download_opened [OF assms(8,7), of "[]" ds] assms(9) loop
    by (simp add: Let_def)
  from up down show ?thesis
    by (simp add: slog_def Close_def)
qed

theorem zero_byte_transfers_witness:
  "fst (upload (client [chunk ''a'' [] 0]) fresh) = None
   \<and> files (snd (snd (upload (client [chunk ''a'' [] 0]) fresh))) ''a'' = Some []
   \<and> logged (snd (snd (upload (client [chunk ''a'' [] 0]) fresh)))
       = [AcceptUpload ''a'' 0, UploadCompleted 0]
   \<and> fst (download [] (wanted ''a'') receiver (holding ''a'' [])) = None
   \<and> sent (fst (snd (download [] (wanted ''a'') receiver (holding ''a'' [])))) = []
   \<and> logged (snd (snd (download [] (wanted ''a'') receiver (holding ''a'' []))))
       = [AcceptDownload ''a'', DownloadCompleted 0]"
proof -
  let ?r = "\<lparr>Filename = ''a'', Content = [], Size = 0\<rparr>"
  have f: "files (snd (snd (upload (client [chunk ''a'' [] 0]) fresh))) ''a'' = Some []"
    by (simp add: upload_def upload_loop_Msg upload_loop_EOF client_def chunk_def
          fresh_def first_chunk_def OpenFile_def slog_def Write_def content_at_def
          SendAndClose_def)
  from zero_byte_transfers [of "client [chunk ''a'' [] 0]" ?r fresh "holding ''a'' []"
      "wanted ''a''" receiver] f
  show ?thesis
    by (simp add: client_def chunk_def fresh_def holding_def wanted_def receiver_def)
qed

section \<open>The handle of a download\<close>

text \<open>
  \<^verbatim>\<open>server.download\<close> defers \<^verbatim>\<open>f.Close()\<close> right after the open: however the handler
  returns, the descriptor it opened is no longer in the table of open handles, and the
  other descriptors are as before.
\<close>

lemma download_releases_handle:
  assumes "Filename_rq req \<notin> set (denied w)" and "files w (Filename_rq req) = Some c"
  shows "handles (snd (snd (download env req s w))) = (handles w)(next_fd w := None)"
proof
  fix fd'
  let ?fd = "next_fd w" and ?name = "Filename_rq req"
  let ?w1 = "w\<lparr>logged := logged w @ [AcceptDownload ?name],
                 opened := opened w @ [?name],
                 handles := (handles w)(?fd \<mapsto> \<lparr>path = ?name, pos = 0\<rparr>),
                 next_fd := Suc ?fd\<rparr>"
  let ?loop = "download_loop env ?fd ?name (of_nat (length c)) 0 s ?w1"
  have w': "snd (snd (download env req s w))
              = Close ?fd (case stat_fault w of Some e \<Rightarrow> ?w1 | None \<Rightarrow> snd (snd ?loop))"
    using download_opened [OF assms, of env s]
    by (simp add: Let_def split: option.splits prod.splits)
  show "handles (snd (snd (download env req s w))) fd' = ((handles w)(next_fd w := None)) fd'"
  proof (cases "fd' = ?fd")
    case True
    then show ?thesis unfolding w' by (simp add: Close_def)
  next
    case False
    from download_loop_handles_other [OF False, of env ?name "of_nat (length c)" 0 s ?w1] False
    show ?thesis unfolding w' by (simp add: Close_def split: option.splits)
  qed
qed

section \<open>The certificate of the listener\<close>

text \<open>
  C7. With TLS enabled and the address bound: when both the certificate path and the key
  path are configured, \<^verbatim>\<open>newListener\<close> loads the pair from disk and fails with the
  certificate-load error when either file is missing or unreadable or the pair does not
  parse; when a path is absent, it generates a self-signed pair from the random source,
  in memory; a failure of either aborts the construction with an error, and no file is
  written.
\<close>

theorem newListener_certificate:
  assumes "TLS opt" and "net_Listen ne addr = Inr lis"
  shows "(CertFile opt \<noteq> [] \<and> KeyFile opt \<noteq> [] \<longrightarrow>
            fst (newListener ne addr opt w)
              = (case read_file w (CertFile opt) of
                   None \<Rightarrow> Inl (TLSConfigFailed CertificateLoadError)
                 | Some c \<Rightarrow>
                     (case read_file w (KeyFile opt) of
                        None \<Rightarrow> Inl (TLSConfigFailed CertificateLoadError)
                      | Some k \<Rightarrow>
                          if parses ne c k then Inr (TLSListener lis (Loaded c k))
                          else Inl (TLSConfigFailed CertificateLoadError))))
         \<and> (CertFile opt = [] \<or> KeyFile opt = [] \<longrightarrow>
            fst (newListener ne addr opt w)
              = (case entropy ne of
                   None \<Rightarrow> Inl (TLSConfigFailed CertificateGenerationError)
                 | Some seed \<Rightarrow> Inr (TLSListener lis (SelfSigned seed))))
         \<and> files (snd (newListener ne addr opt w)) = files w"
  using assms
  by (auto simp: newListener_def genTLS_def genSelfSignedTLS_def read_file_def slog_def Let_def
           split: option.splits sum.splits)

theorem newListener_certificate_witness:
  "fst (newListener host ''localhost:8022'' (secure [] []) fresh)
     = Inr (TLSListener (TCPListener ''localhost:8022'') (SelfSigned [7]))
   \<and> fst (newListener host ''localhost:8022'' (secure ''c'' ''k'') (holding ''c'' [1]))
     = Inl (TLSConfigFailed CertificateLoadError)
   \<and> fst (newListener host ''localhost:8022'' (secure ''c'' ''c'') (holding ''c'' [1]))
     = Inr (TLSListener (TCPListener ''localhost:8022'') (Loaded [1] [1]))"
proof -
  have l: "net_Listen host ''localhost:8022'' = Inr (TCPListener ''localhost:8022'')"
    by (simp add: net_Listen_def host_def)
  have t: "TLS (secure x y)" for x y by (simp add: secure_def)
  from newListener_certificate [OF t l, of "[]" "[]" fresh]
       newListener_certificate [OF t l, of "''c''" "''k''" "holding ''c'' [1]"]
       newListener_certificate [OF t l, of "''c''" "''c''" "holding ''c'' [1]"]
  show ?thesis
    by (simp add: secure_def host_def read_file_def holding_def fresh_def)
qed

end
